theory Spec2Isabelle
  imports Complex_Main "HOL-Library.Char_ord" "HOL-Library.List_Lexorder" "HOL-Library.Multiset"
begin

section \<open>Python values, dictionaries and errors\<close>

text \<open>
  The scoring engine \<^verbatim>\<open>calculator/score_calculator.py\<close> works on plain Python
  dictionaries. A dictionary with string keys is an association list in insertion
  order (a Python \<^verbatim>\<open>dict\<close> keeps that order, and its keys are pairwise distinct).
  A raw counter value is whatever the caller stored under the key: an \<^verbatim>\<open>int\<close>, a
  \<^verbatim>\<open>float\<close>, or something that is not a number (a string, \<^verbatim>\<open>None\<close>).
  Numbers are exact rationals: every finite float is one, and the rounding of the
  float operations is not part of this development.
\<close>

datatype pyval = IntV int | FloatV rat | StrV string | NoneV

type_synonym 'v dict = "(string \<times> 'v) list"

text \<open>\<^verbatim>\<open>d.get(k, dflt)\<close>\<close>

definition dict_get :: "'v dict \<Rightarrow> string \<Rightarrow> 'v \<Rightarrow> 'v" where
  "dict_get d k dflt = (case map_of d k of None \<Rightarrow> dflt | Some v \<Rightarrow> v)"

text \<open>
  A \<^verbatim>\<open>TypeError\<close> of a binary operator carries what Python's message is made of: the
  operator and the type names of the two operands
  (\<^verbatim>\<open>'>' not supported between instances of 'str' and 'int'\<close>).
\<close>

datatype py_error = TypeError string string string | ZeroDivisionError | OverflowError

fun is_num :: "pyval \<Rightarrow> bool" where
  "is_num (IntV i) = True"
| "is_num (FloatV x) = True"
| "is_num (StrV s) = False"
| "is_num NoneV = False"

fun num_of :: "pyval \<Rightarrow> rat" where
  "num_of (IntV i) = of_int i"
| "num_of (FloatV x) = x"
| "num_of (StrV s) = 0"
| "num_of NoneV = 0"

fun type_name :: "pyval \<Rightarrow> string" where
  "type_name (IntV i) = ''int''"
| "type_name (FloatV x) = ''float''"
| "type_name (StrV s) = ''str''"
| "type_name NoneV = ''NoneType''"

text \<open>\<^verbatim>\<open>a > b\<close>: numbers compare by value, strings lexicographically, anything else raises.\<close>

fun py_gt :: "pyval \<Rightarrow> pyval \<Rightarrow> py_error + bool" where
  "py_gt (StrV s) (StrV t) = Inr (t < s)"
| "py_gt a b =
     (if is_num a \<and> is_num b then Inr (num_of b < num_of a)
      else Inl (TypeError ''>'' (type_name a) (type_name b)))"

text \<open>
  The largest double is \<open>2 ^ 1024 - 2 ^ 971\<close>. Rounding to the nearest double reaches
  \<open>2 ^ 1024\<close>, which is no double, from \<open>2 ^ 1024 - 2 ^ 970\<close> on: an integer of that
  magnitude does not convert to a float, and a quotient of two integers of that
  magnitude is no float.
\<close>

definition double_limit :: rat where
  "double_limit = 2 ^ 1024 - 2 ^ 970"

fun int_too_large :: "pyval \<Rightarrow> bool" where
  "int_too_large (IntV i) = (double_limit \<le> \<bar>of_int i\<bar>)"
| "int_too_large v = False"

text \<open>
  \<^verbatim>\<open>a / b\<close> (true division): a number, or an exception. Two integers are divided as
  integers: a zero divisor raises first, then a quotient too large for a float. With a
  float on either side both operands are converted to floats first, which raises for an
  integer too large, and then a zero divisor raises.
\<close>

fun py_truediv :: "pyval \<Rightarrow> pyval \<Rightarrow> py_error + rat" where
  "py_truediv (IntV i) (IntV j) =
     (if j = 0 then Inl ZeroDivisionError
      else if double_limit \<le> \<bar>of_int i / of_int j\<bar> then Inl OverflowError
      else Inr (of_int i / of_int j))"
| "py_truediv a b =
     (if is_num a \<and> is_num b
      then (if int_too_large a \<or> int_too_large b then Inl OverflowError
            else if num_of b = 0 then Inl ZeroDivisionError
            else Inr (num_of a / num_of b))
      else Inl (TypeError ''/'' (type_name a) (type_name b)))"

text \<open>
  \<^verbatim>\<open>max(iterable, default=d)\<close>: the first element is the running maximum, and every later
  element \<^verbatim>\<open>x\<close> replaces it when \<^verbatim>\<open>x > maximum\<close>; the comparison may raise.
\<close>

fun max_loop :: "pyval \<Rightarrow> pyval list \<Rightarrow> py_error + pyval" where
  "max_loop m [] = Inr m"
| "max_loop m (x # xs) =
     (case py_gt x m of
        Inl e \<Rightarrow> Inl e
      | Inr b \<Rightarrow> max_loop (if b then x else m) xs)"

definition py_max :: "pyval list \<Rightarrow> pyval \<Rightarrow> py_error + pyval" where
  "py_max xs dflt = (case xs of [] \<Rightarrow> Inr dflt | x # rest \<Rightarrow> max_loop x rest)"

section \<open>calculate_scores\<close>

record raw_data =
  metrics :: "pyval dict dict option"

record config =
  weights :: "rat dict option"

text \<open>
  The dictionary of line 69, with its seven keys as fields. The key \<^verbatim>\<open>total\<close> is the field
  \<open>total_score\<close>, since \<open>total\<close> is a constant of HOL.
\<close>

record ScoreRecord =
  items_score :: rat
  prs_score :: rat
  reviews_score :: rat
  items_weighted :: rat
  prs_weighted :: rat
  reviews_weighted :: rat
  total_score :: rat

text \<open>
  Lines 28 to 30: the weights are divided by their sum when the sum is positive and
  farther than 0.01 from 1. The dictionary comprehension divides entry by entry.
\<close>

definition rat_div :: "rat \<Rightarrow> rat \<Rightarrow> py_error + rat" where
  "rat_div v s = (if s = 0 then Inl ZeroDivisionError else Inr (v / s))"

fun divide_all :: "rat \<Rightarrow> rat dict \<Rightarrow> py_error + rat dict" where
  "divide_all s [] = Inr []"
| "divide_all s ((k, v) # kvs) =
     (case rat_div v s of
        Inl e \<Rightarrow> Inl e
      | Inr q \<Rightarrow> (case divide_all s kvs of Inl e \<Rightarrow> Inl e | Inr r \<Rightarrow> Inr ((k, q) # r)))"

definition normalize_weights :: "rat dict \<Rightarrow> py_error + rat dict" where
  "normalize_weights w =
     (let weight_sum = sum_list (map snd w)
      in if weight_sum > 0 \<and> \<bar>weight_sum - 1\<bar> > 1 / 100
         then divide_all weight_sum w
         else Inr w)"

text \<open>Lines 33 to 44: the values of one counter over all members, absent ones as 0.\<close>

definition counter_values :: "string \<Rightarrow> pyval dict dict \<Rightarrow> pyval list" where
  "counter_values c ms = map (\<lambda>(name, m). dict_get m c (IntV 0)) ms"

text \<open>Lines 54 to 56: \<^verbatim>\<open>(raw / mx * 100) if mx > 0 else 0.0\<close>\<close>

definition scaled_score :: "pyval \<Rightarrow> pyval \<Rightarrow> py_error + rat" where
  "scaled_score raw mx =
     (case py_gt mx (IntV 0) of
        Inl e \<Rightarrow> Inl e
      | Inr b \<Rightarrow>
          if b then (case py_truediv raw mx of Inl e \<Rightarrow> Inl e | Inr q \<Rightarrow> Inr (q * 100))
          else Inr 0)"

text \<open>Lines 49 to 77: the body of the loop over the members.\<close>

definition score_member ::
  "rat dict \<Rightarrow> pyval \<Rightarrow> pyval \<Rightarrow> pyval \<Rightarrow> pyval dict \<Rightarrow> py_error + ScoreRecord" where
  "score_member w max_items max_prs max_reviews data =
     (let items = dict_get data ''items_completed'' (IntV 0);
          prs = dict_get data ''prs_authored'' (IntV 0);
          reviews = dict_get data ''code_reviews'' (IntV 0)
      in case scaled_score items max_items of
           Inl e \<Rightarrow> Inl e
         | Inr i_score \<Rightarrow>
        (case scaled_score prs max_prs of
           Inl e \<Rightarrow> Inl e
         | Inr p_score \<Rightarrow>
        (case scaled_score reviews max_reviews of
           Inl e \<Rightarrow> Inl e
         | Inr r_score \<Rightarrow>
            let items_weight = dict_get w ''items_completed'' (1 / 2);
                prs_weight = dict_get w ''prs_authored'' (3 / 10);
                reviews_weight = dict_get w ''code_reviews'' (1 / 5);
                i_weighted = i_score * items_weight;
                p_weighted = p_score * prs_weight;
                r_weighted = r_score * reviews_weight
            in Inr \<lparr>items_score = i_score, prs_score = p_score, reviews_score = r_score,
                    items_weighted = i_weighted, prs_weighted = p_weighted,
                    reviews_weighted = r_weighted,
                    total_score = i_weighted + p_weighted + r_weighted\<rparr>)))"

text \<open>
  The loop of line 48. Each member's record is stored under the member's name; an
  exception in one member's body ends the call.
\<close>

fun score_loop ::
  "rat dict \<Rightarrow> pyval \<Rightarrow> pyval \<Rightarrow> pyval \<Rightarrow> pyval dict dict \<Rightarrow> py_error + ScoreRecord dict" where
  "score_loop w mi mp mr [] = Inr []"
| "score_loop w mi mp mr ((name, data) # rest) =
     (case score_member w mi mp mr data of
        Inl e \<Rightarrow> Inl e
      | Inr r \<Rightarrow>
          (case score_loop w mi mp mr rest of
             Inl e \<Rightarrow> Inl e
           | Inr rs \<Rightarrow> Inr ((name, r) # rs)))"

text \<open>Line 25: \<^verbatim>\<open>config.get("weights", {})\<close>\<close>

definition config_weights :: "config \<Rightarrow> rat dict" where
  "config_weights cfg = (case weights cfg of None \<Rightarrow> [] | Some w \<Rightarrow> w)"

definition calculate_scores :: "raw_data \<Rightarrow> config \<Rightarrow> py_error + ScoreRecord dict" where
  "calculate_scores raw cfg =
     (let ms = (case metrics raw of None \<Rightarrow> [] | Some m \<Rightarrow> m)
      in if ms = [] then Inr []
         else
           (case normalize_weights (config_weights cfg) of
              Inl e \<Rightarrow> Inl e
            | Inr w \<Rightarrow>
           (case py_max (counter_values ''items_completed'' ms) (IntV 0) of
              Inl e \<Rightarrow> Inl e
            | Inr max_items \<Rightarrow>
           (case py_max (counter_values ''prs_authored'' ms) (IntV 0) of
              Inl e \<Rightarrow> Inl e
            | Inr max_prs \<Rightarrow>
           (case py_max (counter_values ''code_reviews'' ms) (IntV 0) of
              Inl e \<Rightarrow> Inl e
            | Inr max_reviews \<Rightarrow> score_loop w max_items max_prs max_reviews ms)))))"

section \<open>rank_scores\<close>

text \<open>
  Line 113: the entry \<^verbatim>\<open>{"rank": current_rank, "name": name, **score_data}\<close>, with the
  fields of the score record kept together.
\<close>

record RankedEntry =
  rank :: nat
  name :: string
  score_data :: ScoreRecord

text \<open>
  Lines 98 to 102: \<^verbatim>\<open>sorted(..., key=total, reverse=True)\<close> is a stable sort by
  descending total, here the stable insertion sort on the negated key.
  Lines 104 to 121: the walk over the sorted members, with the loop variables
  \<^verbatim>\<open>i\<close>, \<^verbatim>\<open>current_rank\<close> and \<^verbatim>\<open>prev_total\<close> as arguments.
\<close>

definition sorted_members :: "ScoreRecord dict \<Rightarrow> ScoreRecord dict" where
  "sorted_members scores = sort_key (\<lambda>x. - total_score (snd x)) scores"

fun rank_loop :: "nat \<Rightarrow> nat \<Rightarrow> rat option \<Rightarrow> ScoreRecord dict \<Rightarrow> RankedEntry list" where
  "rank_loop i current_rank prev_total [] = []"
| "rank_loop i current_rank prev_total ((nm, sd) # rest) =
     (let current_rank' =
            (case prev_total of
               None \<Rightarrow> current_rank
             | Some p \<Rightarrow> if total_score sd < p then i + 1 else current_rank)
      in \<lparr>rank = current_rank', name = nm, score_data = sd\<rparr>
           # rank_loop (i + 1) current_rank' (Some (total_score sd)) rest)"

definition rank_scores :: "ScoreRecord dict \<Rightarrow> RankedEntry list" where
  "rank_scores scores =
     (if scores = [] then [] else rank_loop 0 1 None (sorted_members scores))"

section \<open>calculate_component_contributions\<close>

record Contribution =
  items_pct :: rat
  prs_pct :: rat
  reviews_pct :: rat

text \<open>
  Lines 137 to 150, the body of the loop over the members. A score record has all its
  fields, so the defaults of \<^verbatim>\<open>data.get("total", 0)\<close> and of the three
  \<^verbatim>\<open>data.get("..._weighted", 0)\<close> are never taken. The else branch covers every total that
  is not positive.
\<close>

definition contribution :: "ScoreRecord \<Rightarrow> Contribution" where
  "contribution data =
     (let total = total_score data
      in if total > 0
         then \<lparr>items_pct = items_weighted data / total * 100,
               prs_pct = prs_weighted data / total * 100,
               reviews_pct = reviews_weighted data / total * 100\<rparr>
         else \<lparr>items_pct = 0, prs_pct = 0, reviews_pct = 0\<rparr>)"

text \<open>Lines 134 to 152: one entry per member, under the member's name.\<close>

definition calculate_component_contributions :: "ScoreRecord dict \<Rightarrow> Contribution dict" where
  "calculate_component_contributions scores = map (\<lambda>(nm, data). (nm, contribution data)) scores"

section \<open>compare_periods\<close>

record TrendRecord =
  current :: rat
  previous :: rat
  change :: rat
  trend :: string

text \<open>
  Line 168: the union of the two key sets. Python leaves the iteration order of a set
  open; the names are taken here in order of first appearance.
\<close>

definition all_names :: "ScoreRecord dict \<Rightarrow> ScoreRecord dict \<Rightarrow> string list" where
  "all_names current_scores previous_scores =
     remdups (map fst current_scores @ map fst previous_scores)"

text \<open>\<^verbatim>\<open>scores.get(name, {}).get("total", 0)\<close>\<close>

definition total_of :: "ScoreRecord dict \<Rightarrow> string \<Rightarrow> rat" where
  "total_of scores nm = (case map_of scores nm of None \<Rightarrow> 0 | Some r \<Rightarrow> total_score r)"

text \<open>Lines 171 to 187: the body of the loop over the names, with the thresholds 0.5 and -0.5.\<close>

definition compare_member :: "ScoreRecord dict \<Rightarrow> ScoreRecord dict \<Rightarrow> string \<Rightarrow> TrendRecord" where
  "compare_member current_scores previous_scores nm =
     (let cur = total_of current_scores nm;
          prev = total_of previous_scores nm;
          chg = cur - prev
      in \<lparr>current = cur, previous = prev, change = chg,
          trend = (if chg > 1 / 2 then ''up'' else if chg < - (1 / 2) then ''down'' else ''stable'')\<rparr>)"

definition compare_periods :: "ScoreRecord dict \<Rightarrow> ScoreRecord dict \<Rightarrow> TrendRecord dict" where
  "compare_periods current_scores previous_scores =
     map (\<lambda>nm. (nm, compare_member current_scores previous_scores nm))
       (all_names current_scores previous_scores)"


section \<open>Vocabulary of the specification\<close>

text \<open>
  The three counters that are scored, a member's raw value for a counter, and what the
  specification calls a well-typed input: every scored counter of every member is a
  number.
\<close>

definition scored_counters :: "string list" where
  "scored_counters = [''items_completed'', ''prs_authored'', ''code_reviews'']"

definition raw_value :: "string \<Rightarrow> pyval dict \<Rightarrow> pyval" where
  "raw_value c data = dict_get data c (IntV 0)"





definition spec_scaled :: "rat \<Rightarrow> rat \<Rightarrow> rat" where
  "spec_scaled raw mx = (if mx > 0 then raw / mx * 100 else 0)"

text \<open>
  The specification's WeightNormalizer: unchanged if the sum is at most 0; divided by the
  sum if the sum is farther than 0.01 from 1; unchanged otherwise.
\<close>

definition spec_normalized :: "rat dict \<Rightarrow> rat dict" where
  "spec_normalized w =
     (let s = sum_list (map snd w)
      in if s \<le> 0 then w
         else if \<bar>s - 1\<bar> > 1 / 100 then map (\<lambda>(k, v). (k, v / s)) w
         else w)"







text \<open>
  The total of a ranked entry.
\<close>

definition entry_total :: "RankedEntry \<Rightarrow> rat" where
  "entry_total e = total_score (score_data e)"

section \<open>Inputs of the repository's tests\<close>

text \<open>A score record of which only the total matters, as the tests of compare_periods pass.\<close>

definition mk_total :: "rat \<Rightarrow> ScoreRecord" where
  "mk_total t = \<lparr>items_score = 0, prs_score = 0, reviews_score = 0, items_weighted = 0,
     prs_weighted = 0, reviews_weighted = 0, total_score = t\<rparr>"

text \<open>
  The metrics and weights of the tests of calculate_scores and rank_scores: a member with
  three integer counters, a weight set over the three counters, the end-to-end scenario
  (Alice 50/20/30, Bob 25/40/15 under the weights 0.5/0.3/0.2), the all-zero team, and
  three members tied for the first place ahead of a fourth.
\<close>

definition member_counts :: "int \<Rightarrow> int \<Rightarrow> int \<Rightarrow> pyval dict" where
  "member_counts i p r =
     [(''items_completed'', IntV i), (''prs_authored'', IntV p), (''code_reviews'', IntV r)]"

definition weights_of :: "rat \<Rightarrow> rat \<Rightarrow> rat \<Rightarrow> config" where
  "weights_of i p r =
     \<lparr>weights = Some [(''items_completed'', i), (''prs_authored'', p), (''code_reviews'', r)]\<rparr>"

definition std_config :: config where
  "std_config = \<lparr>weights = Some [(''items_completed'', 1 / 2), (''prs_authored'', 3 / 10),
     (''code_reviews'', 1 / 5)]\<rparr>"

definition alice_bob :: raw_data where
  "alice_bob = \<lparr>metrics = Some
     [(''Alice'', [(''items_completed'', IntV 50), (''prs_authored'', IntV 20), (''code_reviews'', IntV 30)]),
      (''Bob'', [(''items_completed'', IntV 25), (''prs_authored'', IntV 40), (''code_reviews'', IntV 15)])]\<rparr>"

definition all_zeros :: raw_data where
  "all_zeros = \<lparr>metrics = Some [(''Alice'', member_counts 0 0 0), (''Bob'', member_counts 0 0 0)]\<rparr>"

definition zero_record :: ScoreRecord where
  "zero_record = mk_total 0"

definition score_record :: "rat \<Rightarrow> rat \<Rightarrow> rat \<Rightarrow> rat \<Rightarrow> rat \<Rightarrow> rat \<Rightarrow> ScoreRecord" where
  "score_record i p r iw pw rw =
     \<lparr>items_score = i, prs_score = p, reviews_score = r, items_weighted = iw,
      prs_weighted = pw, reviews_weighted = rw, total_score = iw + pw + rw\<rparr>"

definition tied_scores :: "ScoreRecord dict" where
  "tied_scores = [(''Dan'', mk_total 70), (''Ann'', mk_total 90), (''Bea'', mk_total 90),
     (''Cal'', mk_total 90)]"

section \<open>What a call of calculate_scores computes\<close>

subsection \<open>The maximum of a counter\<close>

lemma py_gt_num: "is_num a \<Longrightarrow> is_num b \<Longrightarrow> py_gt a b = Inr (num_of b < num_of a)"
  by (cases a; cases b) simp_all



lemma py_gt_zero_Inr: "py_gt mx (IntV 0) = Inr b \<Longrightarrow> is_num mx \<and> b = (0 < num_of mx)"
  by (cases mx) (auto split: if_splits)















subsection \<open>The division and the scaled score\<close>

lemma below_double_limit: "\<not> int_too_large (IntV i) \<Longrightarrow> 1 \<le> j \<Longrightarrow>
  \<not> double_limit \<le> \<bar>of_int i / of_int j\<bar>"
proof -
  assume a: "\<not> int_too_large (IntV i)" and j: "1 \<le> j"
  have "\<bar>(of_int i :: rat) / of_int j\<bar> = \<bar>of_int i\<bar> / of_int j" using j by simp
  also have "\<dots> \<le> \<bar>of_int i\<bar> / 1"
    using j by (intro divide_left_mono) simp_all
  finally have "\<bar>(of_int i :: rat) / of_int j\<bar> \<le> \<bar>of_int i\<bar>" by simp
  then show ?thesis using a by simp
qed

text \<open>
  With numbers on both sides and a positive divisor, the division gives the quotient or
  raises OverflowError, and raises it only with an integer beyond the range of the
  doubles.
\<close>

lemma py_truediv_cases:
  assumes "is_num a" "is_num b" "0 < num_of b"
  shows "py_truediv a b = Inr (num_of a / num_of b)
       \<or> py_truediv a b = Inl OverflowError \<and> (int_too_large a \<or> int_too_large b)"
proof (cases a)
  case (IntV i)
  show ?thesis
  proof (cases b)
    case (IntV j)
    then have j: "1 \<le> j" using assms(3) by simp
    show ?thesis
    proof (cases "double_limit \<le> \<bar>(of_int i :: rat) / of_int j\<bar>")
      case True
      then have "int_too_large a" using below_double_limit [OF _ j, of i] \<open>a = IntV i\<close> by auto
      then show ?thesis using True j \<open>a = IntV i\<close> \<open>b = IntV j\<close> by simp
    next
      case False
      then show ?thesis using j \<open>a = IntV i\<close> \<open>b = IntV j\<close> by simp
    qed
  next
    case (FloatV y)
    then show ?thesis using assms \<open>a = IntV i\<close> by simp
  qed (use assms in simp_all)
next
  case (FloatV x)
  then show ?thesis using assms by (cases b) simp_all
qed (use assms in simp_all)

lemma py_truediv_fits:
  assumes "is_num a" "is_num b" "0 < num_of b" "\<not> int_too_large a" "\<not> int_too_large b"
  shows "py_truediv a b = Inr (num_of a / num_of b)"
  using py_truediv_cases [OF assms(1-3)] assms(4,5) by auto

text \<open>
  The scaled score of a counter, when a maximum that is a number was taken over numbers:
  the value of the specification, the TypeError of \<^verbatim>\<open>max > 0\<close> for a maximum that is no
  number, or the OverflowError of the division.
\<close>

lemma scaled_score_cases:
  assumes "is_num mx \<longrightarrow> is_num raw"
  shows "scaled_score raw mx = Inr (spec_scaled (num_of raw) (num_of mx)) \<and> is_num mx
       \<or> scaled_score raw mx = Inl (TypeError ''>'' (type_name mx) ''int'') \<and> \<not> is_num mx
       \<or> scaled_score raw mx = Inl OverflowError \<and> is_num mx
           \<and> (int_too_large raw \<or> int_too_large mx)"
proof (cases "is_num mx")
  case False
  then show ?thesis by (cases mx) (simp_all add: scaled_score_def)
next
  case True
  then have raw: "is_num raw" using assms by simp
  have gt: "py_gt mx (IntV 0) = Inr (0 < num_of mx)" using True by (simp add: py_gt_num)
  show ?thesis
  proof (cases "0 < num_of mx")
    case False
    then show ?thesis using True gt by (simp add: scaled_score_def spec_scaled_def)
  next
    case pos: True
    from py_truediv_cases [OF raw True pos] show ?thesis
    proof
      assume "py_truediv raw mx = Inr (num_of raw / num_of mx)"
      then show ?thesis using True gt pos by (simp add: scaled_score_def spec_scaled_def)
    next
      assume "py_truediv raw mx = Inl OverflowError \<and> (int_too_large raw \<or> int_too_large mx)"
      then show ?thesis using True gt pos by (simp add: scaled_score_def)
    qed
  qed
qed

lemma scaled_score_num:
  assumes "is_num raw" "is_num mx" "\<not> int_too_large raw" "\<not> int_too_large mx"
  shows "scaled_score raw mx = Inr (spec_scaled (num_of raw) (num_of mx))"
  using scaled_score_cases [of mx raw] assms by auto


subsection \<open>The loop over the members\<close>

lemma score_member_unfold:
  "score_member w mi mp mr data =
     (case scaled_score (raw_value ''items_completed'' data) mi of
        Inl e \<Rightarrow> Inl e
      | Inr i \<Rightarrow>
     (case scaled_score (raw_value ''prs_authored'' data) mp of
        Inl e \<Rightarrow> Inl e
      | Inr p \<Rightarrow>
     (case scaled_score (raw_value ''code_reviews'' data) mr of
        Inl e \<Rightarrow> Inl e
      | Inr r \<Rightarrow>
          Inr \<lparr>items_score = i, prs_score = p, reviews_score = r,
               items_weighted = i * dict_get w ''items_completed'' (1 / 2),
               prs_weighted = p * dict_get w ''prs_authored'' (3 / 10),
               reviews_weighted = r * dict_get w ''code_reviews'' (1 / 5),
               total_score = i * dict_get w ''items_completed'' (1 / 2)
                 + p * dict_get w ''prs_authored'' (3 / 10)
                 + r * dict_get w ''code_reviews'' (1 / 5)\<rparr>)))"
  unfolding score_member_def raw_value_def Let_def by (rule refl)

lemma score_member_Inr:
  assumes "score_member w mi mp mr data = Inr r"
  shows "scaled_score (raw_value ''items_completed'' data) mi = Inr (items_score r)
    \<and> scaled_score (raw_value ''prs_authored'' data) mp = Inr (prs_score r)
    \<and> scaled_score (raw_value ''code_reviews'' data) mr = Inr (reviews_score r)
    \<and> items_weighted r = items_score r * dict_get w ''items_completed'' (1 / 2)
    \<and> prs_weighted r = prs_score r * dict_get w ''prs_authored'' (3 / 10)
    \<and> reviews_weighted r = reviews_score r * dict_get w ''code_reviews'' (1 / 5)
    \<and> total_score r = items_weighted r + prs_weighted r + reviews_weighted r"
proof -
  obtain i where i: "scaled_score (raw_value ''items_completed'' data) mi = Inr i"
    using assms by (cases "scaled_score (raw_value ''items_completed'' data) mi")
      (simp_all add: score_member_unfold)
  obtain p where p: "scaled_score (raw_value ''prs_authored'' data) mp = Inr p"
    using assms i by (cases "scaled_score (raw_value ''prs_authored'' data) mp")
      (simp_all add: score_member_unfold)
  obtain q where q: "scaled_score (raw_value ''code_reviews'' data) mr = Inr q"
    using assms i p by (cases "scaled_score (raw_value ''code_reviews'' data) mr")
      (simp_all add: score_member_unfold)
  have "r = \<lparr>items_score = i, prs_score = p, reviews_score = q,
               items_weighted = i * dict_get w ''items_completed'' (1 / 2),
               prs_weighted = p * dict_get w ''prs_authored'' (3 / 10),
               reviews_weighted = q * dict_get w ''code_reviews'' (1 / 5),
               total_score = i * dict_get w ''items_completed'' (1 / 2)
                 + p * dict_get w ''prs_authored'' (3 / 10)
                 + q * dict_get w ''code_reviews'' (1 / 5)\<rparr>"
    using assms by (simp add: score_member_unfold i p q)
  then show ?thesis by (simp add: i p q)
qed



lemma score_loop_Inr:
  "score_loop w mi mp mr xs = Inr rs \<Longrightarrow>
   map fst rs = map fst xs \<and>
   (\<forall>(nm, r) \<in> set rs. \<exists>data. (nm, data) \<in> set xs \<and> score_member w mi mp mr data = Inr r)"
proof (induction xs arbitrary: rs)
  case Nil
  then show ?case by simp
next
  case (Cons a xs)
  obtain nm data where a: "a = (nm, data)" by (cases a)
  obtain r where r: "score_member w mi mp mr data = Inr r"
    using Cons.prems a by (cases "score_member w mi mp mr data") simp_all
  obtain rs' where rs': "score_loop w mi mp mr xs = Inr rs'"
    using Cons.prems a r by (cases "score_loop w mi mp mr xs") simp_all
  have rs: "rs = (nm, r) # rs'" using Cons.prems a r rs' by simp
  from Cons.IH [OF rs'] r show ?case unfolding rs a by auto
qed



subsection \<open>The weights\<close>

lemma divide_all_nonzero: "s \<noteq> 0 \<Longrightarrow> divide_all s w = Inr (map (\<lambda>(k, v). (k, v / s)) w)"
  by (induction w) (auto simp: rat_div_def)

lemma normalize_weights_eq: "normalize_weights w = Inr (spec_normalized w)"
  by (auto simp: normalize_weights_def spec_normalized_def Let_def divide_all_nonzero)

subsection \<open>The whole call\<close>


lemma calculate_scores_metrics:
  "calculate_scores raw cfg =
   calculate_scores \<lparr>metrics = Some (case metrics raw of None \<Rightarrow> [] | Some m \<Rightarrow> m)\<rparr> cfg"
  by (simp add: calculate_scores_def)

lemma calculate_scores_unfold:
  "ms \<noteq> [] \<Longrightarrow> calculate_scores \<lparr>metrics = Some ms\<rparr> cfg =
     (case py_max (counter_values ''items_completed'' ms) (IntV 0) of
        Inl e \<Rightarrow> Inl e
      | Inr max_items \<Rightarrow>
     (case py_max (counter_values ''prs_authored'' ms) (IntV 0) of
        Inl e \<Rightarrow> Inl e
      | Inr max_prs \<Rightarrow>
     (case py_max (counter_values ''code_reviews'' ms) (IntV 0) of
        Inl e \<Rightarrow> Inl e
      | Inr max_reviews \<Rightarrow>
          score_loop (spec_normalized (config_weights cfg)) max_items max_prs max_reviews ms)))"
  by (simp add: calculate_scores_def normalize_weights_eq)

lemma calculate_scores_cases:
  assumes "ms \<noteq> []"
  shows "(\<exists>c \<in> set scored_counters. \<exists>e. py_max (counter_values c ms) (IntV 0) = Inl e
            \<and> calculate_scores \<lparr>metrics = Some ms\<rparr> cfg = Inl e)
       \<or> (\<exists>mi mp mr. py_max (counter_values ''items_completed'' ms) (IntV 0) = Inr mi
            \<and> py_max (counter_values ''prs_authored'' ms) (IntV 0) = Inr mp
            \<and> py_max (counter_values ''code_reviews'' ms) (IntV 0) = Inr mr
            \<and> calculate_scores \<lparr>metrics = Some ms\<rparr> cfg
                = score_loop (spec_normalized (config_weights cfg)) mi mp mr ms)"
proof (cases "py_max (counter_values ''items_completed'' ms) (IntV 0)")
  case (Inl e)
  then show ?thesis
    by (intro disjI1 bexI [of _ "''items_completed''"])
      (simp_all add: calculate_scores_unfold [OF assms] scored_counters_def)
next
  case i: (Inr mi)
  show ?thesis
  proof (cases "py_max (counter_values ''prs_authored'' ms) (IntV 0)")
    case (Inl e)
    then show ?thesis using i
      by (intro disjI1 bexI [of _ "''prs_authored''"])
        (simp_all add: calculate_scores_unfold [OF assms] scored_counters_def)
  next
    case p: (Inr mp)
    show ?thesis
    proof (cases "py_max (counter_values ''code_reviews'' ms) (IntV 0)")
      case (Inl e)
      then show ?thesis using i p
        by (intro disjI1 bexI [of _ "''code_reviews''"])
          (simp_all add: calculate_scores_unfold [OF assms] scored_counters_def)
    next
      case (Inr mr)
      then show ?thesis using i p
        by (intro disjI2) (simp add: calculate_scores_unfold [OF assms])
    qed
  qed
qed

lemma calculate_scores_Inr:
  assumes "calculate_scores \<lparr>metrics = Some ms\<rparr> cfg = Inr scores"
  shows "\<exists>mi mp mr. py_max (counter_values ''items_completed'' ms) (IntV 0) = Inr mi
            \<and> py_max (counter_values ''prs_authored'' ms) (IntV 0) = Inr mp
            \<and> py_max (counter_values ''code_reviews'' ms) (IntV 0) = Inr mr
            \<and> score_loop (spec_normalized (config_weights cfg)) mi mp mr ms = Inr scores"
proof (cases "ms = []")
  case True
  then show ?thesis using assms by (simp add: calculate_scores_def py_max_def counter_values_def)
next
  case False
  from calculate_scores_cases [OF False, of cfg] assms show ?thesis by auto
qed




lemma calculate_scores_record:
  assumes "calculate_scores raw cfg = Inr scores" "(nm, r) \<in> set scores"
  shows "items_weighted r
           = items_score r * dict_get (spec_normalized (config_weights cfg)) ''items_completed'' (1 / 2)
       \<and> prs_weighted r
           = prs_score r * dict_get (spec_normalized (config_weights cfg)) ''prs_authored'' (3 / 10)
       \<and> reviews_weighted r
           = reviews_score r * dict_get (spec_normalized (config_weights cfg)) ''code_reviews'' (1 / 5)
       \<and> total_score r = items_weighted r + prs_weighted r + reviews_weighted r"
proof -
  let ?ms = "case metrics raw of None \<Rightarrow> [] | Some m \<Rightarrow> m"
  have "calculate_scores \<lparr>metrics = Some ?ms\<rparr> cfg = Inr scores"
    using assms(1) calculate_scores_metrics [of raw cfg] by simp
  then obtain mi mp mr where
    "score_loop (spec_normalized (config_weights cfg)) mi mp mr ?ms = Inr scores"
    using calculate_scores_Inr by blast
  then obtain data where
    "score_member (spec_normalized (config_weights cfg)) mi mp mr data = Inr r"
    using score_loop_Inr assms(2) by blast
  then show ?thesis using score_member_Inr by blast
qed






lemma map_of_scores:
  "map_of (map (\<lambda>(nm, data). (nm, f data)) ms) nm = map_option f (map_of ms nm)"
  by (induction ms) auto


section \<open>Evaluation on the inputs of the tests\<close>

lemmas eval_defs = calculate_scores_def config_weights_def normalize_weights_def rat_div_def
  py_max_def counter_values_def dict_get_def score_member_def scaled_score_def double_limit_def

lemmas input_defs = member_counts_def weights_of_def all_zeros_def zero_record_def mk_total_def
  tied_scores_def std_config_def alice_bob_def score_record_def


lemma alice_bob_result:
  "calculate_scores alice_bob std_config
     = Inr [(''Alice'', score_record 100 50 100 50 15 20),
            (''Bob'', score_record 50 100 50 25 30 10)]"
  by (simp add: alice_bob_def std_config_def score_record_def eval_defs)


section \<open>calculate_scores: totals and weighted contributions\<close>

text \<open>
  Claim C10. Every score record that calculate_scores produces has
  total = items_weighted + prs_weighted + reviews_weighted, and each weighted field is the
  component score times the counter's weight: the entry of the normalized weights, or
  the default 0.5, 0.3 or 0.2 when the key is absent.
\<close>

theorem calculate_scores_total:
  assumes "calculate_scores raw cfg = Inr scores" "(nm, r) \<in> set scores"
  shows "total_score r = items_weighted r + prs_weighted r + reviews_weighted r
       \<and> (\<exists>w. normalize_weights (config_weights cfg) = Inr w
            \<and> items_weighted r = items_score r * dict_get w ''items_completed'' (1 / 2)
            \<and> prs_weighted r = prs_score r * dict_get w ''prs_authored'' (3 / 10)
            \<and> reviews_weighted r = reviews_score r * dict_get w ''code_reviews'' (1 / 5))"
  using calculate_scores_record [OF assms] by (simp add: normalize_weights_eq)

theorem calculate_scores_total_witness:
  "calculate_scores alice_bob std_config
       = Inr [(''Alice'', score_record 100 50 100 50 15 20),
              (''Bob'', score_record 50 100 50 25 30 10)]
   \<and> (''Alice'', score_record 100 50 100 50 15 20)
       \<in> set [(''Alice'', score_record 100 50 100 50 15 20),
              (''Bob'', score_record 50 100 50 25 30 10)]
   \<and> total_score (score_record 100 50 100 50 15 20) = 50 + 15 + 20
   \<and> normalize_weights (config_weights std_config)
       = Inr [(''items_completed'', 1 / 2), (''prs_authored'', 3 / 10), (''code_reviews'', 1 / 5)]
   \<and> items_weighted (score_record 100 50 100 50 15 20) = 100 * (1 / 2)"
  using calculate_scores_total [OF alice_bob_result, of "''Alice''" "score_record 100 50 100 50 15 20"]
    alice_bob_result
  by (simp add: score_record_def std_config_def config_weights_def normalize_weights_def)

section \<open>calculate_scores: scaling by the team maximum\<close>






section \<open>calculate_scores: a counter that is 0 for everybody\<close>






section \<open>calculate_scores: values that are not numbers\<close>




section \<open>calculate_scores: the member at the team maximum\<close>











section \<open>Weight normalization\<close>






section \<open>calculate_component_contributions\<close>

text \<open>
  Claim C5. For each member, calculate_component_contributions gives the percentages
  (weighted / total) * 100 when total > 0 and three zeros when total = 0. For scores
  that calculate_scores produced, the three percentages of a member with total > 0 sum
  to 100.
\<close>

theorem component_contributions:
  assumes "map_of scores nm = Some data"
  shows "\<exists>c. map_of (calculate_component_contributions scores) nm = Some c
     \<and> (0 < total_score data \<longrightarrow>
          items_pct c = items_weighted data / total_score data * 100
        \<and> prs_pct c = prs_weighted data / total_score data * 100
        \<and> reviews_pct c = reviews_weighted data / total_score data * 100)
     \<and> (total_score data = 0 \<longrightarrow> items_pct c = 0 \<and> prs_pct c = 0 \<and> reviews_pct c = 0)
     \<and> (0 < total_score data \<and> calculate_scores raw cfg = Inr scores \<longrightarrow>
          items_pct c + prs_pct c + reviews_pct c = 100)"
proof -
  have c: "map_of (calculate_component_contributions scores) nm = Some (contribution data)"
    by (simp add: calculate_component_contributions_def map_of_scores assms)
  have "items_pct (contribution data) + prs_pct (contribution data)
          + reviews_pct (contribution data) = 100"
    if pos: "0 < total_score data" and calc: "calculate_scores raw cfg = Inr scores"
  proof -
    have "(nm, data) \<in> set scores" using assms by (rule map_of_SomeD)
    then have t: "total_score data = items_weighted data + prs_weighted data + reviews_weighted data"
      using calculate_scores_record [OF calc] by blast
    have "items_pct (contribution data) + prs_pct (contribution data)
          + reviews_pct (contribution data)
        = (items_weighted data + prs_weighted data + reviews_weighted data) / total_score data * 100"
      using pos by (simp add: contribution_def Let_def add_divide_distrib distrib_right)
    also have "\<dots> = 100" using pos t by simp
    finally show ?thesis .
  qed
  then show ?thesis using c by (auto simp: contribution_def Let_def)
qed

theorem component_contributions_witness:
  "map_of [(''Alice'', score_record 100 50 100 50 15 20),
           (''Bob'', score_record 50 100 50 25 30 10)] ''Alice''
     = Some (score_record 100 50 100 50 15 20)
   \<and> 0 < total_score (score_record 100 50 100 50 15 20)
   \<and> calculate_scores alice_bob std_config
       = Inr [(''Alice'', score_record 100 50 100 50 15 20),
              (''Bob'', score_record 50 100 50 25 30 10)]
   \<and> map_of (calculate_component_contributions
         [(''Alice'', score_record 100 50 100 50 15 20),
          (''Bob'', score_record 50 100 50 25 30 10)]) ''Alice''
     = Some \<lparr>items_pct = 1000 / 17, prs_pct = 300 / 17, reviews_pct = 400 / 17\<rparr>
   \<and> (1000 / 17 + 300 / 17 + 400 / 17 :: rat) = 100
   \<and> total_score zero_record = 0
   \<and> map_of (calculate_component_contributions [(''Alice'', zero_record)]) ''Alice''
     = Some \<lparr>items_pct = 0, prs_pct = 0, reviews_pct = 0\<rparr>"
proof -
  have look: "map_of [(''Alice'', score_record 100 50 100 50 15 20),
           (''Bob'', score_record 50 100 50 25 30 10)] ''Alice''
     = Some (score_record 100 50 100 50 15 20)"
    by simp
  have zero: "map_of [(''Alice'', zero_record)] ''Alice'' = Some zero_record" by simp
  show ?thesis
    using component_contributions [OF look, of alice_bob std_config]
      component_contributions [OF zero, of alice_bob std_config] alice_bob_result
    by (simp add: calculate_component_contributions_def contribution_def score_record_def
        input_defs)
qed

section \<open>rank_scores\<close>

lemma length_rank_loop: "length (rank_loop i cr p xs) = length xs"
  by (induction xs arbitrary: i cr p) (auto simp: Let_def)

lemma rank_loop_entries: "map (\<lambda>e. (name e, score_data e)) (rank_loop i cr p xs) = xs"
  by (induction xs arbitrary: i cr p) (auto simp: Let_def)

lemma rank_loop_head:
  "xs \<noteq> [] \<Longrightarrow>
   rank (rank_loop i cr p xs ! 0)
     = (case p of None \<Rightarrow> cr
        | Some q \<Rightarrow> if total_score (snd (xs ! 0)) < q then i + 1 else cr)"
  by (cases xs) (auto simp: Let_def split: option.splits)

lemma rank_loop_step:
  "Suc k < length xs \<Longrightarrow>
   rank (rank_loop i cr p xs ! Suc k)
     = (if total_score (snd (xs ! Suc k)) < total_score (snd (xs ! k)) then i + Suc k + 1
        else rank (rank_loop i cr p xs ! k))"
proof (induction xs arbitrary: i cr p k)
  case Nil
  then show ?case by simp
next
  case (Cons a rest)
  obtain nm sd where a: "a = (nm, sd)" by (cases a)
  define cr' where "cr' = (case p of None \<Rightarrow> cr
     | Some q \<Rightarrow> if total_score sd < q then i + 1 else cr)"
  have unfold: "rank_loop i cr p (a # rest)
     = \<lparr>rank = cr', name = nm, score_data = sd\<rparr>
         # rank_loop (i + 1) cr' (Some (total_score sd)) rest"
    by (simp add: a cr'_def Let_def)
  show ?case
  proof (cases k)
    case 0
    then have "rest \<noteq> []" using Cons.prems by auto
    from rank_loop_head [OF this, of "i + 1" cr' "Some (total_score sd)"]
    show ?thesis unfolding unfold using 0 a by simp
  next
    case (Suc k')
    then have "Suc k' < length rest" using Cons.prems by simp
    from Cons.IH [OF this, of "i + 1" cr' "Some (total_score sd)"]
    show ?thesis unfolding unfold using Suc by simp
  qed
qed

lemma sorted_members_desc:
  assumes "i \<le> j" "j < length scores"
  shows "total_score (snd (sorted_members scores ! j)) \<le> total_score (snd (sorted_members scores ! i))"
proof -
  let ?S = "sorted_members scores"
  have len: "length ?S = length scores" by (simp add: sorted_members_def)
  have "sorted (map (\<lambda>x. - total_score (snd x)) ?S)"
    unfolding sorted_members_def by (rule sorted_sort_key)
  then have "map (\<lambda>x. - total_score (snd x)) ?S ! i \<le> map (\<lambda>x. - total_score (snd x)) ?S ! j"
    using assms len by (intro sorted_nth_mono) simp_all
  then show ?thesis using assms len by simp
qed

lemma rank_scores_unfold:
  "scores \<noteq> [] \<Longrightarrow> rank_scores scores = rank_loop 0 1 None (sorted_members scores)"
  by (simp add: rank_scores_def)

lemma rank_scores_entries:
  "map (\<lambda>e. (name e, score_data e)) (rank_scores scores) = sorted_members scores"
  by (cases "scores = []") (simp_all add: rank_scores_def rank_loop_entries sorted_members_def)

lemma length_rank_scores: "length (rank_scores scores) = length scores"
  by (cases "scores = []") (simp_all add: rank_scores_def length_rank_loop sorted_members_def)

lemma entry_total_rank_scores:
  assumes "i < length scores"
  shows "entry_total (rank_scores scores ! i) = total_score (snd (sorted_members scores ! i))"
proof -
  have "(name (rank_scores scores ! i), score_data (rank_scores scores ! i))
          = map (\<lambda>e. (name e, score_data e)) (rank_scores scores) ! i"
    using assms by (simp add: length_rank_scores)
  then show ?thesis unfolding rank_scores_entries entry_total_def by (metis snd_conv)
qed

lemma rank_scores_step:
  assumes "Suc k < length scores"
  shows "rank (rank_scores scores ! Suc k)
     = (if entry_total (rank_scores scores ! Suc k) < entry_total (rank_scores scores ! k)
        then Suc k + 1 else rank (rank_scores scores ! k))"
proof -
  have ne: "scores \<noteq> []" using assms by auto
  have len: "Suc k < length (sorted_members scores)" using assms by (simp add: sorted_members_def)
  have t1: "entry_total (rank_scores scores ! Suc k)
      = total_score (snd (sorted_members scores ! Suc k))"
    using assms by (intro entry_total_rank_scores) simp
  have t0: "entry_total (rank_scores scores ! k) = total_score (snd (sorted_members scores ! k))"
    using assms by (intro entry_total_rank_scores) simp
  show ?thesis
    unfolding t1 t0 unfolding rank_scores_unfold [OF ne]
    using rank_loop_step [OF len, of 0 1 None] by simp
qed

lemma rank_scores_tied_run:
  assumes "i + d < length scores"
    "entry_total (rank_scores scores ! i) = entry_total (rank_scores scores ! (i + d))"
  shows "rank (rank_scores scores ! (i + d)) = rank (rank_scores scores ! i)"
  using assms
proof (induction d)
  case 0
  then show ?case by simp
next
  case (Suc d)
  let ?R = "rank_scores scores"
  have lo: "entry_total (?R ! (i + Suc d)) \<le> entry_total (?R ! (i + d))"
    using sorted_members_desc [of "i + d" "i + Suc d" scores] Suc.prems(1)
    by (simp add: entry_total_rank_scores)
  have hi: "entry_total (?R ! (i + d)) \<le> entry_total (?R ! i)"
    using sorted_members_desc [of i "i + d" scores] Suc.prems(1)
    by (simp add: entry_total_rank_scores)
  have eq: "entry_total (?R ! i) = entry_total (?R ! (i + d))"
    using lo hi Suc.prems(2) by simp
  have "rank (?R ! (i + Suc d)) = rank (?R ! (i + d))"
    using rank_scores_step [of "i + d" scores] Suc.prems eq by simp
  also have "\<dots> = rank (?R ! i)" using Suc.IH eq Suc.prems(1) by simp
  finally show ?case .
qed

text \<open>
  Claim C3. rank_scores returns the members sorted by total, descending, each member
  once; the empty input gives the empty list. The first entry has rank 1; an entry whose
  total is strictly less than the total before it has rank = its 0-based position + 1;
  entries with the same total have the same rank.
\<close>

theorem rank_scores_competition:
  "rank_scores [] = []
   \<and> length (rank_scores scores) = length scores
   \<and> mset (map (\<lambda>e. (name e, score_data e)) (rank_scores scores)) = mset scores
   \<and> (\<forall>i j. i \<le> j \<and> j < length scores \<longrightarrow>
         entry_total (rank_scores scores ! j) \<le> entry_total (rank_scores scores ! i))
   \<and> (scores \<noteq> [] \<longrightarrow> rank (rank_scores scores ! 0) = 1)
   \<and> (\<forall>i. 0 < i \<and> i < length scores
          \<and> entry_total (rank_scores scores ! i) < entry_total (rank_scores scores ! (i - 1))
        \<longrightarrow> rank (rank_scores scores ! i) = i + 1)
   \<and> (\<forall>i j. i < length scores \<and> j < length scores
          \<and> entry_total (rank_scores scores ! i) = entry_total (rank_scores scores ! j)
        \<longrightarrow> rank (rank_scores scores ! i) = rank (rank_scores scores ! j))"
proof (intro conjI allI impI)
  show "rank_scores [] = []" by (simp add: rank_scores_def)
  show "length (rank_scores scores) = length scores" by (rule length_rank_scores)
  show "mset (map (\<lambda>e. (name e, score_data e)) (rank_scores scores)) = mset scores"
    by (simp add: rank_scores_entries sorted_members_def)
next
  fix i j
  assume "i \<le> j \<and> j < length scores"
  then show "entry_total (rank_scores scores ! j) \<le> entry_total (rank_scores scores ! i)"
    using sorted_members_desc [of i j scores] by (simp add: entry_total_rank_scores)
next
  assume ne: "scores \<noteq> []"
  have "length (sorted_members scores) = length scores" by (simp add: sorted_members_def)
  with ne have "sorted_members scores \<noteq> []" by auto
  from rank_loop_head [OF this, of 0 1 None] show "rank (rank_scores scores ! 0) = 1"
    by (simp add: rank_scores_unfold [OF ne])
next
  fix i
  assume a: "0 < i \<and> i < length scores
    \<and> entry_total (rank_scores scores ! i) < entry_total (rank_scores scores ! (i - 1))"
  then obtain k where k: "i = Suc k" by (cases i) auto
  show "rank (rank_scores scores ! i) = i + 1"
    using rank_scores_step [of k scores] a unfolding k by simp
next
  fix i j
  assume a: "i < length scores \<and> j < length scores
    \<and> entry_total (rank_scores scores ! i) = entry_total (rank_scores scores ! j)"
  show "rank (rank_scores scores ! i) = rank (rank_scores scores ! j)"
  proof (cases "i \<le> j")
    case True
    then obtain d where "j = i + d" using le_Suc_ex by blast
    then show ?thesis using rank_scores_tied_run [of i d scores] a by simp
  next
    case False
    then obtain d where "i = j + d" using le_Suc_ex [of j i] by auto
    then show ?thesis using rank_scores_tied_run [of j d scores] a by simp
  qed
qed

theorem rank_scores_competition_witness:
  "tied_scores \<noteq> []
   \<and> map (\<lambda>e. (name e, rank e, entry_total e)) (rank_scores tied_scores)
       = [(''Ann'', 1, 90), (''Bea'', 1, 90), (''Cal'', 1, 90), (''Dan'', 4, 70)]
   \<and> (0 :: nat) < 3 \<and> 3 < length tied_scores
   \<and> entry_total (rank_scores tied_scores ! 3) < entry_total (rank_scores tied_scores ! (3 - 1))
   \<and> rank (rank_scores tied_scores ! 3) = 3 + 1
   \<and> entry_total (rank_scores tied_scores ! 0) = entry_total (rank_scores tied_scores ! 2)
   \<and> rank (rank_scores tied_scores ! 0) = rank (rank_scores tied_scores ! 2)"
proof -
  have r: "rank_scores tied_scores
     = [\<lparr>rank = 1, name = ''Ann'', score_data = mk_total 90\<rparr>,
        \<lparr>rank = 1, name = ''Bea'', score_data = mk_total 90\<rparr>,
        \<lparr>rank = 1, name = ''Cal'', score_data = mk_total 90\<rparr>,
        \<lparr>rank = 4, name = ''Dan'', score_data = mk_total 70\<rparr>]"
    by (simp add: rank_scores_def sorted_members_def tied_scores_def mk_total_def)
  show ?thesis
    using rank_scores_competition [of tied_scores]
    by (simp add: r entry_total_def) (simp add: tied_scores_def mk_total_def)
qed

section \<open>compare_periods: trend labels and members\<close>

lemma map_of_compare_periods:
  "map_of (compare_periods cur prev) nm =
     (if nm \<in> set (all_names cur prev) then Some (compare_member cur prev nm) else None)"
  by (simp add: compare_periods_def map_of_map_restrict restrict_map_def)

lemma set_all_names: "set (all_names cur prev) = fst ` set cur \<union> fst ` set prev"
  by (simp add: all_names_def)



text \<open>
  Claim C7. The keys of the result of compare_periods are exactly the union of the keys
  of the two inputs, each once. A member absent from one period has total 0 there; a
  member only in the current period with a total above 0.5 is "up", a member only in
  the previous period with a total above 0.5 is "down".
\<close>

theorem compare_periods_members:
  "set (map fst (compare_periods cur prev)) = fst ` set cur \<union> fst ` set prev
   \<and> distinct (map fst (compare_periods cur prev))
   \<and> (\<forall>nm \<in> fst ` set cur \<union> fst ` set prev.
        \<exists>r. map_of (compare_periods cur prev) nm = Some r
          \<and> (nm \<notin> fst ` set prev \<longrightarrow> previous r = 0 \<and> current r = total_of cur nm
                \<and> (current r > 1 / 2 \<longrightarrow> trend r = ''up''))
          \<and> (nm \<notin> fst ` set cur \<longrightarrow> current r = 0 \<and> previous r = total_of prev nm
                \<and> (previous r > 1 / 2 \<longrightarrow> trend r = ''down'')))"
proof -
  have keys: "map fst (compare_periods cur prev) = all_names cur prev"
    by (simp add: compare_periods_def comp_def)
  have absent: "total_of s nm = 0" if "nm \<notin> fst ` set s" for s nm
  proof -
    have "map_of s nm = None" using that by (simp add: map_of_eq_None_iff)
    then show ?thesis by (simp add: total_of_def)
  qed
  show ?thesis
    by (auto simp: keys set_all_names map_of_compare_periods compare_member_def Let_def absent)
      (simp_all add: all_names_def)
qed


theorem compare_periods_members_witness:
  "''NewGuy'' \<in> fst ` set [(''Alice'', mk_total 85), (''NewGuy'', mk_total 60)]
       \<union> fst ` set [(''Alice'', mk_total 80), (''LeftGuy'', mk_total 70)]
   \<and> ''NewGuy'' \<notin> fst ` set [(''Alice'', mk_total 80), (''LeftGuy'', mk_total 70)]
   \<and> ''LeftGuy'' \<notin> fst ` set [(''Alice'', mk_total 85), (''NewGuy'', mk_total 60)]
   \<and> map_of (compare_periods [(''Alice'', mk_total 85), (''NewGuy'', mk_total 60)]
        [(''Alice'', mk_total 80), (''LeftGuy'', mk_total 70)]) ''NewGuy''
      = Some \<lparr>current = 60, previous = 0, change = 60, trend = ''up''\<rparr>
   \<and> map_of (compare_periods [(''Alice'', mk_total 85), (''NewGuy'', mk_total 60)]
        [(''Alice'', mk_total 80), (''LeftGuy'', mk_total 70)]) ''LeftGuy''
      = Some \<lparr>current = 0, previous = 70, change = - 70, trend = ''down''\<rparr>
   \<and> set (map fst (compare_periods [(''Alice'', mk_total 85), (''NewGuy'', mk_total 60)]
        [(''Alice'', mk_total 80), (''LeftGuy'', mk_total 70)]))
      = {''Alice'', ''NewGuy'', ''LeftGuy''}"
  using compare_periods_members [of "[(''Alice'', mk_total 85), (''NewGuy'', mk_total 60)]"
      "[(''Alice'', mk_total 80), (''LeftGuy'', mk_total 70)]"]
  by (simp add: compare_periods_def all_names_def compare_member_def total_of_def mk_total_def
      insert_commute)

end
